theory Spec2Isabelle
  imports Main "HOL-Library.Word"
begin

unbundle bit_operations_syntax

section \<open>Resume-wizard: the credential vault and the key lifecycle\<close>

text \<open>
  The development embeds two parts of the repository:
  \<^item> \<open>src/lib/crypto.ts\<close> (\<open>toBase64\<close>, \<open>fromBase64\<close>, \<open>deriveKey\<close>, \<open>encryptText\<close>,
    \<open>decryptText\<close>), and
  \<^item> the event handlers of the \<open>Home\<close> component that read and write the API key, the
    stored resume and the persistence flag.

  The source is glue over browser built-ins. The built-ins that are pure functions of
  their input are modelled by what their standards make them compute: \<open>TextEncoder\<close> and
  \<open>TextDecoder\<close> (WHATWG Encoding, UTF-8), \<open>btoa\<close> and \<open>atob\<close> (WHATWG forgiving base64),
  truthiness, property access and \<open>ToString\<close> (ECMAScript). Web Crypto (PBKDF2, AES-GCM)
  is a parameter of the model, the record \<open>webcrypto\<close>; the random source is an explicit
  stream threaded through \<open>encryptText\<close>.
\<close>

subsection \<open>Bytes, strings and errors\<close>

type_synonym byte = "8 word"
type_synonym code_unit = "16 word"

text \<open>A JavaScript string is a sequence of UTF-16 code units.\<close>

type_synonym jsstring = "code_unit list"

definition js :: "string \<Rightarrow> jsstring" where
  "js s = map (\<lambda>c. of_nat (of_char c)) s"

text \<open>
  What the two functions can throw. \<open>InvalidEncryptedPayload\<close> is the
  \<open>Error('Invalid encrypted payload')\<close> of \<open>decryptText\<close> (the spec's InvalidPayload);
  \<open>OperationError\<close> is what \<open>crypto.subtle.decrypt\<close> rejects with when the tag does not
  verify (the spec's AuthenticationFailed); \<open>InvalidCharacterError\<close> is thrown by \<open>atob\<close>
  and \<open>btoa\<close>; \<open>SyntaxError\<close> by \<open>JSON.parse\<close>.
\<close>

datatype error = SyntaxError | InvalidEncryptedPayload | InvalidCharacterError | OperationError

definition bind_result :: "error + 'a \<Rightarrow> ('a \<Rightarrow> error + 'b) \<Rightarrow> error + 'b" where
  "bind_result r f = (case r of Inl e \<Rightarrow> Inl e | Inr v \<Rightarrow> f v)"

subsection \<open>TextEncoder and TextDecoder\<close>

text \<open>
  \<open>enc.encode(s)\<close> first converts the string to scalar values (a surrogate pair becomes one
  code point, an unpaired surrogate becomes U+FFFD), then writes each as UTF-8.
\<close>

definition is_lead :: "nat \<Rightarrow> bool" where
  "is_lead c = (0xD800 \<le> c \<and> c \<le> 0xDBFF)"

definition is_trail :: "nat \<Rightarrow> bool" where
  "is_trail c = (0xDC00 \<le> c \<and> c \<le> 0xDFFF)"

fun to_scalars :: "nat list \<Rightarrow> nat list" where
  "to_scalars [] = []"
| "to_scalars [c] = (if is_lead c \<or> is_trail c then [0xFFFD] else [c])"
| "to_scalars (c # d # cs) =
     (if is_lead c \<and> is_trail d
      then (0x10000 + (c - 0xD800) * 0x400 + (d - 0xDC00)) # to_scalars cs
      else if is_lead c \<or> is_trail c then 0xFFFD # to_scalars (d # cs)
      else c # to_scalars (d # cs))"

definition utf8_bytes :: "nat \<Rightarrow> nat list" where
  "utf8_bytes cp =
     (if cp < 0x80 then [cp]
      else if cp < 0x800 then [0xC0 + cp div 64, 0x80 + cp mod 64]
      else if cp < 0x10000 then
        [0xE0 + cp div 4096, 0x80 + cp div 64 mod 64, 0x80 + cp mod 64]
      else [0xF0 + cp div 262144, 0x80 + cp div 4096 mod 64,
            0x80 + cp div 64 mod 64, 0x80 + cp mod 64])"

definition TextEncoder_encode :: "jsstring \<Rightarrow> byte list" where
  "TextEncoder_encode s = map of_nat (concat (map utf8_bytes (to_scalars (map unat s))))"

text \<open>
  \<open>dec.decode(buf)\<close> runs the UTF-8 decoder of the Encoding standard: a state of code
  point, bytes seen, bytes needed and the bounds of the next continuation byte; a byte
  that does not fit emits U+FFFD and is read again as the start of a sequence. The
  decoder was made by \<open>new TextDecoder()\<close>, so \<open>ignoreBOM\<close> is false and a leading U+FEFF
  of the output is dropped.
\<close>

record utf8_decoder =
  code_point :: nat
  bytes_seen :: nat
  bytes_needed :: nat
  lower_boundary :: nat
  upper_boundary :: nat

definition decoder_init :: utf8_decoder where
  "decoder_init = \<lparr>code_point = 0, bytes_seen = 0, bytes_needed = 0,
     lower_boundary = 0x80, upper_boundary = 0xBF\<rparr>"

datatype lead_result = Emit nat | Malformed | Continue utf8_decoder

definition lead_byte :: "nat \<Rightarrow> lead_result" where
  "lead_byte b =
     (if b \<le> 0x7F then Emit b
      else if 0xC2 \<le> b \<and> b \<le> 0xDF then
        Continue \<lparr>code_point = b mod 32, bytes_seen = 0, bytes_needed = 1,
          lower_boundary = 0x80, upper_boundary = 0xBF\<rparr>
      else if 0xE0 \<le> b \<and> b \<le> 0xEF then
        Continue \<lparr>code_point = b mod 16, bytes_seen = 0, bytes_needed = 2,
          lower_boundary = (if b = 0xE0 then 0xA0 else 0x80),
          upper_boundary = (if b = 0xED then 0x9F else 0xBF)\<rparr>
      else if 0xF0 \<le> b \<and> b \<le> 0xF4 then
        Continue \<lparr>code_point = b mod 8, bytes_seen = 0, bytes_needed = 3,
          lower_boundary = (if b = 0xF0 then 0x90 else 0x80),
          upper_boundary = (if b = 0xF4 then 0x8F else 0xBF)\<rparr>
      else Malformed)"

fun utf8_decode :: "utf8_decoder \<Rightarrow> nat list \<Rightarrow> nat list" where
  "utf8_decode d [] = (if bytes_needed d \<noteq> 0 then [0xFFFD] else [])"
| "utf8_decode d (b # bs) =
     (if bytes_needed d = 0 \<or> b < lower_boundary d \<or> upper_boundary d < b then
        (if bytes_needed d = 0 then [] else [0xFFFD]) @
        (case lead_byte b of
           Emit c \<Rightarrow> c # utf8_decode decoder_init bs
         | Malformed \<Rightarrow> 0xFFFD # utf8_decode decoder_init bs
         | Continue d' \<Rightarrow> utf8_decode d' bs)
      else
        (let cp = code_point d * 64 + b mod 64 in
         if bytes_seen d + 1 \<noteq> bytes_needed d then
           utf8_decode (d\<lparr>code_point := cp, bytes_seen := bytes_seen d + 1,
             lower_boundary := 0x80, upper_boundary := 0xBF\<rparr>) bs
         else cp # utf8_decode decoder_init bs))"

definition utf16_units :: "nat \<Rightarrow> nat list" where
  "utf16_units cp =
     (if cp < 0x10000 then [cp]
      else [0xD800 + (cp - 0x10000) div 0x400, 0xDC00 + (cp - 0x10000) mod 0x400])"

definition strip_bom :: "nat list \<Rightarrow> nat list" where
  "strip_bom cps = (case cps of [] \<Rightarrow> [] | c # r \<Rightarrow> if c = 0xFEFF then r else cps)"

definition TextDecoder_decode :: "byte list \<Rightarrow> jsstring" where
  "TextDecoder_decode bs =
     map of_nat (concat (map utf16_units (strip_bom (utf8_decode decoder_init (map unat bs)))))"

text \<open>Strings that survive the two conversions: no unpaired surrogate, no leading U+FEFF.\<close>

fun well_formed :: "nat list \<Rightarrow> bool" where
  "well_formed [] = True"
| "well_formed [c] = (\<not> is_lead c \<and> \<not> is_trail c)"
| "well_formed (c # d # cs) =
     (if is_lead c then is_trail d \<and> well_formed cs
      else \<not> is_trail c \<and> well_formed (d # cs))"

definition well_formed_string :: "jsstring \<Rightarrow> bool" where
  "well_formed_string s = well_formed (map unat s)"

definition starts_with_bom :: "jsstring \<Rightarrow> bool" where
  "starts_with_bom s = (case s of [] \<Rightarrow> False | c # _ \<Rightarrow> c = 0xFEFF)"

definition scalar_value :: "nat \<Rightarrow> bool" where
  "scalar_value c = (c < 0xD800 \<or> (0xE000 \<le> c \<and> c < 0x110000))"

subsection \<open>btoa and atob\<close>

fun base64_sextets :: "nat list \<Rightarrow> nat list" where
  "base64_sextets [] = []"
| "base64_sextets [a] = [a div 4, a mod 4 * 16]"
| "base64_sextets [a, b] = [a div 4, a mod 4 * 16 + b div 16, b mod 16 * 4]"
| "base64_sextets (a # b # c # r) =
     [a div 4, a mod 4 * 16 + b div 16, b mod 16 * 4 + c div 64, c mod 64] @ base64_sextets r"

definition base64_char :: "nat \<Rightarrow> nat" where
  "base64_char n =
     (if n < 26 then 65 + n
      else if n < 52 then 97 + (n - 26)
      else if n < 62 then 48 + (n - 52)
      else if n = 62 then 43
      else 47)"

definition base64_encode :: "nat list \<Rightarrow> nat list" where
  "base64_encode bs =
     map base64_char (base64_sextets bs) @ replicate ((3 - length bs mod 3) mod 3) 61"

definition base64_value :: "nat \<Rightarrow> nat option" where
  "base64_value c =
     (if 65 \<le> c \<and> c \<le> 90 then Some (c - 65)
      else if 97 \<le> c \<and> c \<le> 122 then Some (c - 97 + 26)
      else if 48 \<le> c \<and> c \<le> 57 then Some (c - 48 + 52)
      else if c = 43 then Some 62
      else if c = 47 then Some 63
      else None)"

fun base64_values :: "nat list \<Rightarrow> nat list option" where
  "base64_values [] = Some []"
| "base64_values (c # cs) =
     (case base64_value c of
        None \<Rightarrow> None
      | Some v \<Rightarrow> (case base64_values cs of None \<Rightarrow> None | Some vs \<Rightarrow> Some (v # vs)))"

definition is_ascii_whitespace :: "nat \<Rightarrow> bool" where
  "is_ascii_whitespace c = (c = 9 \<or> c = 10 \<or> c = 12 \<or> c = 13 \<or> c = 32)"

definition drop_final_equals :: "nat list \<Rightarrow> nat list" where
  "drop_final_equals data = (if data \<noteq> [] \<and> last data = 61 then butlast data else data)"

fun base64_bytes :: "nat list \<Rightarrow> nat list" where
  "base64_bytes (s1 # s2 # s3 # s4 # r) =
     (let n = ((s1 * 64 + s2) * 64 + s3) * 64 + s4
      in [n div 65536, n div 256 mod 256, n mod 256]) @ base64_bytes r"
| "base64_bytes [s1, s2, s3] =
     (let n = (s1 * 64 + s2) * 64 + s3 in [n div 1024, n div 4 mod 256])"
| "base64_bytes [s1, s2] = [(s1 * 64 + s2) div 16]"
| "base64_bytes [s1] = []"
| "base64_bytes [] = []"

text \<open>
  Forgiving base64 decoding, as \<open>atob\<close> does it: ASCII whitespace is removed; when the
  length is a multiple of four, one or two final \<open>=\<close> are removed; a length of one
  modulo four or a character outside the alphabet fails; the bits left over after the
  last whole byte are dropped unchecked.
\<close>

definition forgiving_base64_decode :: "nat list \<Rightarrow> nat list option" where
  "forgiving_base64_decode data =
     (let d1 = filter (\<lambda>c. \<not> is_ascii_whitespace c) data;
          d2 = (if length d1 mod 4 = 0 then drop_final_equals (drop_final_equals d1) else d1)
      in if length d2 mod 4 = 1 then None
         else (case base64_values d2 of
                 None \<Rightarrow> None
               | Some vs \<Rightarrow> Some (base64_bytes vs)))"

definition btoa :: "jsstring \<Rightarrow> error + jsstring" where
  "btoa s =
     (if list_all (\<lambda>c. unat c < 256) s
      then Inr (map of_nat (base64_encode (map unat s)))
      else Inl InvalidCharacterError)"

definition atob :: "jsstring \<Rightarrow> error + jsstring" where
  "atob s =
     (case forgiving_base64_decode (map unat s) of
        None \<Rightarrow> Inl InvalidCharacterError
      | Some bs \<Rightarrow> Inr (map of_nat bs))"

definition String_fromCharCode :: "byte list \<Rightarrow> jsstring" where
  "String_fromCharCode bs = map (\<lambda>b. of_nat (unat b)) bs"

text \<open>
  \<open>toBase64\<close> and \<open>fromBase64\<close> of \<open>crypto.ts\<close>. \<open>String.fromCharCode(...bytes)\<close> passes
  every byte as an argument of one call; ECMAScript sets no bound on the number of
  arguments and neither does this model (an engine has one, far above the size of a key
  and its ciphertext).
\<close>

definition toBase64 :: "byte list \<Rightarrow> error + jsstring" where
  "toBase64 buf = btoa (String_fromCharCode buf)"

definition fromBase64 :: "jsstring \<Rightarrow> error + byte list" where
  "fromBase64 b64 = bind_result (atob b64) (\<lambda>str. Inr (map (\<lambda>c. of_nat (unat c)) str))"

text \<open>The string that \<open>toBase64\<close> returns for a buffer (it never throws, see below).\<close>

definition base64_string :: "byte list \<Rightarrow> jsstring" where
  "base64_string buf = map of_nat (base64_encode (map unat buf))"

subsection \<open>JSON values, JSON text, truthiness and ToString\<close>

text \<open>
  A value that \<open>JSON.parse\<close> can return. Numbers are the integers that JavaScript prints in
  plain decimal; the fields of an object are kept in order, under distinct names.
\<close>

datatype json =
    JNull
  | JBool bool
  | JNum int
  | JStr jsstring
  | JArr "json list"
  | JObj "(string \<times> json) list"

text \<open>
  A string that is stored and later handed to \<open>JSON.parse\<close> is represented by what it
  denotes: \<open>JsonText v\<close> is the string \<open>JSON.stringify(v)\<close>, and \<open>Unparsable s\<close> is a
  string \<open>s\<close> that \<open>JSON.parse\<close> rejects (the empty string among them). The literals
  \<open>'1'\<close> and \<open>'0'\<close> of the persistence flag are \<open>JSON.stringify(1)\<close> and
  \<open>JSON.stringify(0)\<close>.
\<close>

datatype jstext = JsonText json | Unparsable jsstring

definition JSON_stringify :: "json \<Rightarrow> jstext" where
  "JSON_stringify v = JsonText v"

definition JSON_parse :: "jstext \<Rightarrow> error + json" where
  "JSON_parse t = (case t of JsonText v \<Rightarrow> Inr v | Unparsable s \<Rightarrow> Inl SyntaxError)"

definition text_truthy :: "jstext \<Rightarrow> bool" where
  "text_truthy t = (case t of JsonText v \<Rightarrow> True | Unparsable s \<Rightarrow> s \<noteq> [])"

fun truthy :: "json \<Rightarrow> bool" where
  "truthy JNull = False"
| "truthy (JBool b) = b"
| "truthy (JNum n) = (n \<noteq> 0)"
| "truthy (JStr s) = (s \<noteq> [])"
| "truthy (JArr xs) = True"
| "truthy (JObj fs) = True"

text \<open>\<open>parsed.k\<close>: \<open>None\<close> is \<open>undefined\<close>. Only an object has the properties read here.\<close>

definition get_prop :: "json \<Rightarrow> string \<Rightarrow> json option" where
  "get_prop v k = (case v of JObj fs \<Rightarrow> map_of fs k | _ \<Rightarrow> None)"

definition prop_truthy :: "json \<Rightarrow> string \<Rightarrow> bool" where
  "prop_truthy v k = (case get_prop v k of None \<Rightarrow> False | Some x \<Rightarrow> truthy x)"

fun decimal :: "nat \<Rightarrow> jsstring" where
  "decimal n =
     (if n < 10 then [of_nat (48 + n)] else decimal (n div 10) @ [of_nat (48 + n mod 10)])"

declare decimal.simps [simp del]

fun join_comma :: "jsstring list \<Rightarrow> jsstring" where
  "join_comma [] = []"
| "join_comma [x] = x"
| "join_comma (x # y # r) = x @ js '','' @ join_comma (y # r)"

fun ToString :: "json \<Rightarrow> jsstring" where
  "ToString JNull = js ''null''"
| "ToString (JBool b) = (if b then js ''true'' else js ''false'')"
| "ToString (JNum n) = (if n < 0 then js ''-'' @ decimal (nat (- n)) else decimal (nat n))"
| "ToString (JStr s) = s"
| "ToString (JArr xs) = join_comma (map (\<lambda>x. if x = JNull then [] else ToString x) xs)"
| "ToString (JObj fs) = js ''[object Object]''"

text \<open>The string \<open>atob\<close> receives for \<open>parsed.k\<close>: its argument is converted by ToString.\<close>

definition prop_string :: "json \<Rightarrow> string \<Rightarrow> jsstring" where
  "prop_string v k = (case get_prop v k of None \<Rightarrow> js ''undefined'' | Some x \<Rightarrow> ToString x)"

subsection \<open>Web Crypto and the random source\<close>

text \<open>
  The provider behind \<open>crypto.subtle\<close>: PBKDF2 with SHA-256 from password bytes, salt and
  iteration count to the 256 key bits, and AES-GCM under a key and an iv, whose
  decryption returns \<open>None\<close> where the browser rejects with OperationError.
\<close>

type_synonym crypto_key = "byte list"

record webcrypto =
  pbkdf2 :: "byte list \<Rightarrow> byte list \<Rightarrow> nat \<Rightarrow> crypto_key"
  aes_gcm_encrypt :: "crypto_key \<Rightarrow> byte list \<Rightarrow> byte list \<Rightarrow> byte list"
  aes_gcm_decrypt :: "crypto_key \<Rightarrow> byte list \<Rightarrow> byte list \<Rightarrow> byte list option"

text \<open>\<open>crypto.getRandomValues(new Uint8Array(n))\<close> takes the next \<open>n\<close> bytes of the source.\<close>

type_synonym rng = "nat \<Rightarrow> byte"

definition getRandomValues :: "nat \<Rightarrow> rng \<Rightarrow> byte list \<times> rng" where
  "getRandomValues n r = (map r [0..<n], \<lambda>i. r (i + n))"

subsection \<open>crypto.ts\<close>

definition deriveKey :: "webcrypto \<Rightarrow> jsstring \<Rightarrow> byte list \<Rightarrow> error + crypto_key" where
  "deriveKey W password salt =
     (let pwKey = TextEncoder_encode password
      in Inr (pbkdf2 W pwKey salt 200000))"

text \<open>The object \<open>{v: 1, salt, iv, data}\<close> that \<open>encryptText\<close> serialises.\<close>

definition payload_text :: "byte list \<Rightarrow> byte list \<Rightarrow> byte list \<Rightarrow> error + jstext" where
  "payload_text salt iv cipher =
     bind_result (toBase64 salt) (\<lambda>s64.
     bind_result (toBase64 iv) (\<lambda>i64.
     bind_result (toBase64 cipher) (\<lambda>d64.
       Inr (JSON_stringify (JObj [(''v'', JNum 1), (''salt'', JStr s64),
              (''iv'', JStr i64), (''data'', JStr d64)])))))"

definition encryptText ::
  "webcrypto \<Rightarrow> jsstring \<Rightarrow> jsstring \<Rightarrow> rng \<Rightarrow> error + (jstext \<times> rng)" where
  "encryptText W plain password r =
     (let (salt, r1) = getRandomValues 16 r;
          (iv, r2) = getRandomValues 12 r1
      in bind_result (deriveKey W password salt) (\<lambda>key.
         let cipher = aes_gcm_encrypt W key iv (TextEncoder_encode plain)
         in bind_result (payload_text salt iv cipher) (\<lambda>t. Inr (t, r2))))"

definition decryptText :: "webcrypto \<Rightarrow> jstext \<Rightarrow> jsstring \<Rightarrow> error + jsstring" where
  "decryptText W encrypted password =
     bind_result (JSON_parse encrypted) (\<lambda>parsed.
       if \<not> truthy parsed \<or> \<not> prop_truthy parsed ''salt'' \<or> \<not> prop_truthy parsed ''iv''
            \<or> \<not> prop_truthy parsed ''data''
       then Inl InvalidEncryptedPayload
       else
         bind_result (fromBase64 (prop_string parsed ''salt'')) (\<lambda>salt.
         bind_result (fromBase64 (prop_string parsed ''iv'')) (\<lambda>iv.
         bind_result (fromBase64 (prop_string parsed ''data'')) (\<lambda>data.
         bind_result (deriveKey W password salt) (\<lambda>key.
           case aes_gcm_decrypt W key iv data of
             None \<Rightarrow> Inl OperationError
           | Some plainBuf \<Rightarrow> Inr (TextDecoder_decode plainBuf))))))"

text \<open>
  Names for what \<open>encryptText\<close> computes on the way: the salt and the iv it draws from the
  random source, the key it derives, the ciphertext, and the object it serialises.
\<close>

definition fresh_salt :: "rng \<Rightarrow> byte list" where
  "fresh_salt r = fst (getRandomValues 16 r)"

definition fresh_iv :: "rng \<Rightarrow> byte list" where
  "fresh_iv r = fst (getRandomValues 12 (snd (getRandomValues 16 r)))"

definition derived_key :: "webcrypto \<Rightarrow> jsstring \<Rightarrow> byte list \<Rightarrow> crypto_key" where
  "derived_key W password salt = pbkdf2 W (TextEncoder_encode password) salt 200000"

definition ciphertext :: "webcrypto \<Rightarrow> jsstring \<Rightarrow> jsstring \<Rightarrow> rng \<Rightarrow> byte list" where
  "ciphertext W plain password r =
     aes_gcm_encrypt W (derived_key W password (fresh_salt r)) (fresh_iv r)
       (TextEncoder_encode plain)"

definition payload_object :: "byte list \<Rightarrow> byte list \<Rightarrow> byte list \<Rightarrow> json" where
  "payload_object salt iv cipher =
     JObj [(''v'', JNum 1), (''salt'', JStr (base64_string salt)),
           (''iv'', JStr (base64_string iv)), (''data'', JStr (base64_string cipher))]"

text \<open>Encrypting under one passphrase and decrypting the payload under another.\<close>

definition encrypt_then_decrypt ::
  "webcrypto \<Rightarrow> jsstring \<Rightarrow> jsstring \<Rightarrow> jsstring \<Rightarrow> rng \<Rightarrow> error + jsstring" where
  "encrypt_then_decrypt W plain pw1 pw2 r =
     bind_result (encryptText W plain pw1 r) (\<lambda>(t, r'). decryptText W t pw2)"

subsection \<open>The Home component\<close>

text \<open>
  The React state of \<open>Home\<close> that the handlers below touch (\<open>useState\<close>), together with
  what they reach in the browser: \<open>localStorage\<close>, the random source and the messages
  shown by \<open>alert\<close>. The job description, the progress bar and the editor are left out:
  none of these handlers reads or writes them. Writes to \<open>localStorage\<close> succeed (the quota
  is not modelled), and each handler runs to its end before the next event.
\<close>

datatype resume_file = File jsstring jsstring

datatype alert =
    EnterApiKeyFirst
  | EnterPassphraseToEncrypt
  | KeyEncryptedAndSaved
  | FailedToEncryptAndSave error
  | EnterPassphraseToUnlock
  | FailedToDecrypt error
  | EnterPassphraseToReencrypt
  | ApiKeySaved
  | FailedToEncrypt error

record home =
  resumeFile :: "resume_file option"
  lastSavedResume :: json
  persistEnabled :: bool
  apiKey :: jsstring
  encryptedApiKey :: "jstext option"
  passphrase :: jsstring
  isApiUnlocked :: bool
  originalContent :: json
  localStorage :: "string \<rightharpoonup> jstext"
  random :: rng
  alerts :: "alert list"

text \<open>The state of a freshly mounted component: the defaults of \<open>useState\<close>.\<close>

definition initial_state :: "(string \<rightharpoonup> jstext) \<Rightarrow> rng \<Rightarrow> home" where
  "initial_state store r =
     \<lparr>resumeFile = None, lastSavedResume = JNull, persistEnabled = True, apiKey = [],
      encryptedApiKey = None, passphrase = [], isApiUnlocked = False,
      originalContent = JStr [], localStorage = store, random = r, alerts = []\<rparr>"

text \<open>
  \<open>handleFileUpload\<close>, with the \<open>onload\<close> of its reader: \<open>picked\<close> is the name and the text
  of \<open>e.target.files[0]\<close> (\<open>None\<close> when no file was chosen), \<open>now\<close> is \<open>Date.now()\<close>.
\<close>

definition handleFileUpload :: "(jsstring \<times> jsstring) option \<Rightarrow> int \<Rightarrow> home \<Rightarrow> home" where
  "handleFileUpload picked now s =
     (case picked of
        None \<Rightarrow> s
      | Some (name, content) \<Rightarrow>
          (let s1 = s\<lparr>resumeFile := Some (File name content), originalContent := JStr content\<rparr>
           in if persistEnabled s then
                (let item = JObj [(''name'', JStr name), (''content'', JStr content),
                                  (''savedAt'', JNum now)]
                 in s1\<lparr>localStorage :=
                          (localStorage s)(''resume_wizard_last_resume'' \<mapsto> JSON_stringify item),
                        lastSavedResume := item\<rparr>)
              else s1))"

text \<open>
  The mount effect (\<open>useEffect(..., [])\<close>), in its three steps. The whole body is one
  \<open>try\<close>: when \<open>JSON.parse\<close> of the stored resume throws, the rest of the effect is
  skipped and what was set before stays. \<open>file_ctor\<close> says whether \<open>new File\<close> works in
  this browser.
\<close>

definition restore_resume :: "bool \<Rightarrow> home \<Rightarrow> error + home" where
  "restore_resume file_ctor s =
     (case localStorage s ''resume_wizard_last_resume'' of
        None \<Rightarrow> Inr s
      | Some raw \<Rightarrow>
          if \<not> text_truthy raw then Inr s
          else bind_result (JSON_parse raw) (\<lambda>parsed.
            let s2 = s\<lparr>lastSavedResume := parsed\<rparr>
            in case (if resumeFile s = None \<and> truthy parsed
                     then get_prop parsed ''content'' else None) of
                 None \<Rightarrow> Inr s2
               | Some c \<Rightarrow>
                   if \<not> truthy c then Inr s2
                   else if file_ctor then
                     Inr (s2\<lparr>resumeFile := Some (File (prop_string parsed ''name'') (ToString c)),
                             originalContent := c\<rparr>)
                   else Inr (s2\<lparr>originalContent := c\<rparr>)))"

definition restore_key :: "home \<Rightarrow> home" where
  "restore_key s =
     (case localStorage s ''resume_wizard_api_key_enc'' of
        None \<Rightarrow> s
      | Some storedEnc \<Rightarrow>
          if text_truthy storedEnc
          then s\<lparr>encryptedApiKey := Some storedEnc, apiKey := [], isApiUnlocked := False\<rparr>
          else s)"

definition loadEffect :: "bool \<Rightarrow> home \<Rightarrow> home" where
  "loadEffect file_ctor s =
     (let rawPersist = localStorage s ''resume_wizard_persistence'';
          shouldPersist =
            (case rawPersist of None \<Rightarrow> True | Some t \<Rightarrow> t = JSON_stringify (JNum 1));
          s1 = s\<lparr>persistEnabled := shouldPersist\<rparr>
      in if \<not> shouldPersist then s1
         else (case restore_resume file_ctor s1 of
                 Inl err \<Rightarrow> s1
               | Inr s2 \<Rightarrow> restore_key s2))"

text \<open>A page load: the component mounts with fresh state over the storage that is there.\<close>

definition page_load :: "bool \<Rightarrow> (string \<rightharpoonup> jstext) \<Rightarrow> rng \<Rightarrow> home" where
  "page_load file_ctor store r = loadEffect file_ctor (initial_state store r)"

definition clearLastSavedResume :: "home \<Rightarrow> home" where
  "clearLastSavedResume s =
     s\<lparr>localStorage :=
         (localStorage s)(''resume_wizard_last_resume'' := None,
                          ''resume_wizard_api_key_enc'' := None),
       lastSavedResume := JNull, resumeFile := None, originalContent := JStr []\<rparr>"

text \<open>The buttons under the key field, and which of them the component renders.\<close>

datatype button =
    CopyKey | EncryptAndSaveKey | ClearKey | UnlockSavedKey | ClearEncryptedKey | SaveEncrypted

definition has_encrypted :: "home \<Rightarrow> bool" where
  "has_encrypted s = (case encryptedApiKey s of None \<Rightarrow> False | Some t \<Rightarrow> text_truthy t)"

definition shown :: "home \<Rightarrow> button \<Rightarrow> bool" where
  "shown s b =
     (if \<not> has_encrypted s then b = CopyKey \<or> b = EncryptAndSaveKey \<or> b = ClearKey
      else if \<not> isApiUnlocked s then b = UnlockSavedKey \<or> b = ClearEncryptedKey
      else b = CopyKey \<or> b = SaveEncrypted \<or> b = ClearEncryptedKey)"

definition show_alert :: "alert \<Rightarrow> home \<Rightarrow> home" where
  "show_alert a s = s\<lparr>alerts := alerts s @ [a]\<rparr>"

definition encryptAndSaveKey :: "webcrypto \<Rightarrow> home \<Rightarrow> home" where
  "encryptAndSaveKey W s =
     (if apiKey s = [] then show_alert EnterApiKeyFirst s
      else if passphrase s = [] then show_alert EnterPassphraseToEncrypt s
      else (case encryptText W (apiKey s) (passphrase s) (random s) of
              Inl err \<Rightarrow> show_alert (FailedToEncryptAndSave err) s
            | Inr (enc, r') \<Rightarrow>
                show_alert KeyEncryptedAndSaved
                  (s\<lparr>localStorage := (localStorage s)(''resume_wizard_api_key_enc'' \<mapsto> enc),
                     encryptedApiKey := Some enc, isApiUnlocked := True, random := r'\<rparr>)))"

text \<open>\<open>JSON.parse(null)\<close> reads the text \<open>null\<close>, so a missing payload is the value null.\<close>

definition unlockSavedKey :: "webcrypto \<Rightarrow> home \<Rightarrow> home" where
  "unlockSavedKey W s =
     (if passphrase s = [] then show_alert EnterPassphraseToUnlock s
      else (case decryptText W
                   (case encryptedApiKey s of None \<Rightarrow> JSON_stringify JNull | Some t \<Rightarrow> t)
                   (passphrase s) of
              Inl err \<Rightarrow> show_alert (FailedToDecrypt err) s
            | Inr plain \<Rightarrow> s\<lparr>apiKey := plain, isApiUnlocked := True\<rparr>))"

definition clearEncryptedKey :: "home \<Rightarrow> home" where
  "clearEncryptedKey s =
     s\<lparr>localStorage := (localStorage s)(''resume_wizard_api_key_enc'' := None),
       encryptedApiKey := None, isApiUnlocked := False, apiKey := []\<rparr>"

definition saveEncrypted :: "webcrypto \<Rightarrow> home \<Rightarrow> home" where
  "saveEncrypted W s =
     (if passphrase s = [] then show_alert EnterPassphraseToReencrypt s
      else (case encryptText W (apiKey s) (passphrase s) (random s) of
              Inl err \<Rightarrow> show_alert (FailedToEncrypt err) s
            | Inr (enc, r') \<Rightarrow>
                show_alert ApiKeySaved
                  (s\<lparr>localStorage := (localStorage s)(''resume_wizard_api_key_enc'' \<mapsto> enc),
                     encryptedApiKey := Some enc, random := r'\<rparr>)))"

definition click :: "webcrypto \<Rightarrow> button \<Rightarrow> home \<Rightarrow> home" where
  "click W b s =
     (if \<not> shown s b then s
      else (case b of
              CopyKey \<Rightarrow> s
            | EncryptAndSaveKey \<Rightarrow> encryptAndSaveKey W s
            | ClearKey \<Rightarrow> s\<lparr>apiKey := []\<rparr>
            | UnlockSavedKey \<Rightarrow> unlockSavedKey W s
            | ClearEncryptedKey \<Rightarrow> clearEncryptedKey s
            | SaveEncrypted \<Rightarrow> saveEncrypted W s))"

text \<open>The \<open>onChange\<close> of the persistence checkbox.\<close>

definition togglePersist :: "bool \<Rightarrow> home \<Rightarrow> home" where
  "togglePersist v s =
     (let s1 = s\<lparr>persistEnabled := v,
                 localStorage := (localStorage s)(''resume_wizard_persistence'' \<mapsto>
                   JSON_stringify (JNum (if v then 1 else 0)))\<rparr>
      in if \<not> v then
           s1\<lparr>localStorage :=
                (localStorage s1)(''resume_wizard_last_resume'' := None,
                                  ''resume_wizard_api_key_enc'' := None),
              lastSavedResume := JNull\<rparr>
         else s1)"

text \<open>What the user can do, and a session as a sequence of such events.\<close>

datatype event =
    TypeApiKey jsstring
  | TypePassphrase jsstring
  | Click button
  | TogglePersist bool
  | Upload "(jsstring \<times> jsstring) option" int
  | ClearSavedResume
  | Reload

definition step :: "webcrypto \<Rightarrow> bool \<Rightarrow> home \<Rightarrow> event \<Rightarrow> home" where
  "step W file_ctor s ev =
     (case ev of
        TypeApiKey v \<Rightarrow> s\<lparr>apiKey := v\<rparr>
      | TypePassphrase v \<Rightarrow> s\<lparr>passphrase := v\<rparr>
      | Click b \<Rightarrow> click W b s
      | TogglePersist v \<Rightarrow> togglePersist v s
      | Upload picked now \<Rightarrow> handleFileUpload picked now s
      | ClearSavedResume \<Rightarrow> (if truthy (lastSavedResume s) then clearLastSavedResume s else s)
      | Reload \<Rightarrow> (loadEffect file_ctor (initial_state (localStorage s) (random s)))\<lparr>alerts := alerts s\<rparr>)"

definition run :: "webcrypto \<Rightarrow> bool \<Rightarrow> home \<Rightarrow> event list \<Rightarrow> home" where
  "run W file_ctor s evs = foldl (step W file_ctor) s evs"

subsection \<open>Assumptions on the provider, and a provider to test with\<close>

text \<open>
  What the proofs ask of AES-GCM and PBKDF2. \<open>aead_correct\<close> holds of AES-GCM as it is
  specified (a ciphertext carries its 16-byte tag, so it is never empty). The other three
  idealise it: a ciphertext opens under no other key or iv, a ciphertext with one byte
  changed does not open, and different (password, salt) pairs derive different keys.
\<close>

definition aead_correct :: "webcrypto \<Rightarrow> bool" where
  "aead_correct W =
     (\<forall>k iv m. aes_gcm_decrypt W k iv (aes_gcm_encrypt W k iv m) = Some m
        \<and> aes_gcm_encrypt W k iv m \<noteq> [])"





text \<open>
  A provider that meets all four assumptions, for running the model on concrete inputs.
  It hides nothing: the key is the framed password and salt, the ciphertext is the framed
  key and iv followed by the message twice. \<open>frame x\<close> writes the length of \<open>x\<close> in unary
  before it.
\<close>

definition frame :: "byte list \<Rightarrow> byte list" where
  "frame x = replicate (length x) 1 @ 0 # x"

definition toy_crypto :: webcrypto where
  "toy_crypto =
     \<lparr>pbkdf2 = (\<lambda>pw salt n. frame pw @ salt),
      aes_gcm_encrypt = (\<lambda>k iv m. frame k @ frame iv @ m @ m),
      aes_gcm_decrypt = (\<lambda>k iv c.
        let n = length (frame k @ frame iv);
            m = take ((length c - n) div 2) (drop n c)
        in if c = frame k @ frame iv @ m @ m then Some m else None)\<rparr>"

definition counting_rng :: rng where
  "counting_rng = (\<lambda>i. of_nat i)"

text \<open>
  The scenario of the spec: a key and a passphrase, the payload the test provider makes of
  them with the counting source, the session of a user who types both and saves, and the
  session of a user who first turns persistence off.
\<close>

definition example_key :: jsstring where
  "example_key = js ''AIza-example-key-123''"

definition example_passphrase :: jsstring where
  "example_passphrase = js ''correct horse''"

definition example_payload :: jstext where
  "example_payload =
     JSON_stringify (payload_object (fresh_salt counting_rng) (fresh_iv counting_rng)
       (ciphertext toy_crypto example_key example_passphrase counting_rng))"


definition opted_out_session :: home where
  "opted_out_session =
     run toy_crypto True (initial_state Map.empty counting_rng)
       [TogglePersist False, TypeApiKey example_key, TypePassphrase example_passphrase,
        Click EncryptAndSaveKey]"

section \<open>Properties of the built-ins\<close>

subsection \<open>UTF-8: decoding what was encoded\<close>

lemma mod_192_32: "(x::nat) < 32 \<Longrightarrow> (192 + x) mod 32 = x"
proof -
  assume a: "x < 32"
  have "(192 + x) mod 32 = (x + 32 * 6) mod 32" by (simp add: add.commute)
  also have "\<dots> = x mod 32" by (rule mod_mult_self2)
  finally show ?thesis using a by simp
qed

lemma mod_224_16: "(x::nat) < 16 \<Longrightarrow> (224 + x) mod 16 = x"
proof -
  assume a: "x < 16"
  have "(224 + x) mod 16 = (x + 16 * 14) mod 16" by (simp add: add.commute)
  also have "\<dots> = x mod 16" by (rule mod_mult_self2)
  finally show ?thesis using a by simp
qed

lemma mod_240_8: "(x::nat) < 8 \<Longrightarrow> (240 + x) mod 8 = x"
proof -
  assume a: "x < 8"
  have "(240 + x) mod 8 = (x + 8 * 30) mod 8" by (simp add: add.commute)
  also have "\<dots> = x mod 8" by (rule mod_mult_self2)
  finally show ?thesis using a by simp
qed

lemma cont_mod: "(128 + x mod 64) mod 64 = (x mod 64 :: nat)"
proof -
  have "(128 + x mod 64) mod 64 = (x mod 64 + 64 * 2) mod 64" by (simp add: add.commute)
  also have "\<dots> = x mod 64 mod 64" by (rule mod_mult_self2)
  finally show ?thesis by simp
qed

lemma lead_byte_1: "c < 0x80 \<Longrightarrow> lead_byte c = Emit c"
  by (simp add: lead_byte_def)

lemma lead_byte_2:
  assumes "0x80 \<le> c" "c < 0x800"
  shows "lead_byte (0xC0 + c div 64) =
    Continue \<lparr>code_point = c div 64, bytes_seen = 0, bytes_needed = 1,
      lower_boundary = 0x80, upper_boundary = 0xBF\<rparr>"
proof -
  have a: "2 \<le> c div 64" "c div 64 < 32" using assms by arith+
  show ?thesis unfolding lead_byte_def using a by (simp add: mod_192_32)
qed

lemma lead_byte_3:
  assumes "0x800 \<le> c" "c < 0x10000"
  shows "lead_byte (0xE0 + c div 4096) =
    Continue \<lparr>code_point = c div 4096, bytes_seen = 0, bytes_needed = 2,
      lower_boundary = (if c div 4096 = 0 then 0xA0 else 0x80),
      upper_boundary = (if c div 4096 = 13 then 0x9F else 0xBF)\<rparr>"
proof -
  have a: "c div 4096 < 16" using assms by arith
  show ?thesis unfolding lead_byte_def using a by (simp add: mod_224_16)
qed

lemma lead_byte_4:
  assumes "0x10000 \<le> c" "c < 0x110000"
  shows "lead_byte (0xF0 + c div 262144) =
    Continue \<lparr>code_point = c div 262144, bytes_seen = 0, bytes_needed = 3,
      lower_boundary = (if c div 262144 = 0 then 0x90 else 0x80),
      upper_boundary = (if c div 262144 = 4 then 0x8F else 0xBF)\<rparr>"
proof -
  have a: "c div 262144 < 5" using assms by arith
  show ?thesis unfolding lead_byte_def using a by (simp add: mod_240_8)
qed


lemma utf8_decode_cont_last:
  assumes "bytes_needed d \<noteq> 0" "bytes_seen d + 1 = bytes_needed d"
    "lower_boundary d \<le> b" "b \<le> upper_boundary d"
  shows "utf8_decode d (b # bs) = (code_point d * 64 + b mod 64) # utf8_decode decoder_init bs"
  using assms by (simp add: Let_def)

lemma utf8_decode_cont_more:
  assumes "bytes_needed d \<noteq> 0" "bytes_seen d + 1 \<noteq> bytes_needed d"
    "lower_boundary d \<le> b" "b \<le> upper_boundary d"
  shows "utf8_decode d (b # bs) =
    utf8_decode (d\<lparr>code_point := code_point d * 64 + b mod 64, bytes_seen := bytes_seen d + 1,
             lower_boundary := 0x80, upper_boundary := 0xBF\<rparr>) bs"
  using assms by (simp add: Let_def)

lemma utf8_decode_lead:
  "utf8_decode decoder_init (b # bs) =
     (case lead_byte b of
           Emit c \<Rightarrow> c # utf8_decode decoder_init bs
         | Malformed \<Rightarrow> 0xFFFD # utf8_decode decoder_init bs
         | Continue d' \<Rightarrow> utf8_decode d' bs)"
  by (simp add: decoder_init_def)

lemma decode_1: "c < 0x80 \<Longrightarrow>
  utf8_decode decoder_init (utf8_bytes c @ rest) = c # utf8_decode decoder_init rest"
  by (simp add: utf8_bytes_def utf8_decode_lead lead_byte_1 del: utf8_decode.simps)

lemma decode_2:
  assumes "0x80 \<le> c" "c < 0x800"
  shows "utf8_decode decoder_init (utf8_bytes c @ rest) = c # utf8_decode decoder_init rest"
proof -
  have b: "utf8_bytes c = [0xC0 + c div 64, 0x80 + c mod 64]"
    using assms by (simp add: utf8_bytes_def)
  have "utf8_decode decoder_init (utf8_bytes c @ rest) =
      utf8_decode \<lparr>code_point = c div 64, bytes_seen = 0, bytes_needed = 1,
      lower_boundary = 0x80, upper_boundary = 0xBF\<rparr> ((0x80 + c mod 64) # rest)"
    unfolding b by (simp add: utf8_decode_lead lead_byte_2 [OF assms] del: utf8_decode.simps)
  also have "\<dots> = (c div 64 * 64 + (0x80 + c mod 64) mod 64) # utf8_decode decoder_init rest"
    by (subst utf8_decode_cont_last) simp_all
  also have "c div 64 * 64 + (0x80 + c mod 64) mod 64 = c"
    by (simp only: cont_mod div_mult_mod_eq)
  finally show ?thesis .
qed


lemma split_64: "(c::nat) div (64 * k) * 64 + c div k mod 64 = c div k"
proof -
  have "c div k div 64 = c div (64 * k)" by (simp add: div_mult2_eq mult.commute)
  then show ?thesis using div_mult_mod_eq [of "c div k" 64] by simp
qed

lemma decode_3:
  assumes "0x800 \<le> c" "c < 0x10000" "scalar_value c"
  shows "utf8_decode decoder_init (utf8_bytes c @ rest) = c # utf8_decode decoder_init rest"
proof -
  define m where "m = c div 64 mod 64"
  have b: "utf8_bytes c = [0xE0 + c div 4096, 0x80 + m, 0x80 + c mod 64]"
    using assms by (simp add: utf8_bytes_def m_def)
  have e: "c div 4096 * 64 + m = c div 64"
    using split_64 [of c 64] by (simp add: m_def)
  have m64: "m < 64" by (simp add: m_def)
  have lo: "c div 4096 = 0 \<Longrightarrow> 32 \<le> m"
  proof -
    assume "c div 4096 = 0"
    then have "m = c div 64" using e by simp
    moreover have "32 \<le> c div 64" using assms(1) by arith
    ultimately show ?thesis by simp
  qed
  have hi: "c div 4096 = 13 \<Longrightarrow> m \<le> 31"
  proof -
    assume h: "c div 4096 = 13"
    then have "c < 0xE000" by arith
    then have "c < 0xD800" using assms(3) by (simp add: scalar_value_def)
    then have "c div 64 < 864" by arith
    then show ?thesis using e h by simp
  qed
  let ?d1 = "\<lparr>code_point = c div 4096, bytes_seen = 0, bytes_needed = 2,
      lower_boundary = (if c div 4096 = 0 then 0xA0 else 0x80),
      upper_boundary = (if c div 4096 = 13 then 0x9F else 0xBF)\<rparr>"
  let ?d2 = "\<lparr>code_point = c div 64, bytes_seen = 1, bytes_needed = 2,
      lower_boundary = 0x80, upper_boundary = 0xBF\<rparr>"
  have "utf8_decode decoder_init (utf8_bytes c @ rest) =
      utf8_decode ?d1 ((0x80 + m) # (0x80 + c mod 64) # rest)"
    unfolding b
    by (simp add: utf8_decode_lead lead_byte_3 [OF assms(1,2)] del: utf8_decode.simps)
  also have "\<dots> = utf8_decode ?d2 ((0x80 + c mod 64) # rest)"
  proof -
    have "(0x80 + m) mod 64 = m" unfolding m_def by (rule cont_mod)
    then have "c div 4096 * 64 + (0x80 + m) mod 64 = c div 64" using e by simp
    then show ?thesis
      using lo hi m64 by (subst utf8_decode_cont_more) simp_all
  qed
  also have "\<dots> = (c div 64 * 64 + (0x80 + c mod 64) mod 64) # utf8_decode decoder_init rest"
    by (subst utf8_decode_cont_last) simp_all
  also have "c div 64 * 64 + (0x80 + c mod 64) mod 64 = c"
    by (simp only: cont_mod div_mult_mod_eq)
  finally show ?thesis .
qed

lemma decode_4:
  assumes "0x10000 \<le> c" "c < 0x110000"
  shows "utf8_decode decoder_init (utf8_bytes c @ rest) = c # utf8_decode decoder_init rest"
proof -
  define m where "m = c div 4096 mod 64"
  define n where "n = c div 64 mod 64"
  have b: "utf8_bytes c = [0xF0 + c div 262144, 0x80 + m, 0x80 + n, 0x80 + c mod 64]"
    using assms by (simp add: utf8_bytes_def m_def n_def)
  have e: "c div 262144 * 64 + m = c div 4096"
    using split_64 [of c 4096] by (simp add: m_def)
  have f: "c div 4096 * 64 + n = c div 64"
    using split_64 [of c 64] by (simp add: n_def)
  have m64: "m < 64" "n < 64" by (simp_all add: m_def n_def)
  have lo: "c div 262144 = 0 \<Longrightarrow> 16 \<le> m"
  proof -
    assume "c div 262144 = 0"
    then have "m = c div 4096" using e by simp
    moreover have "16 \<le> c div 4096" using assms(1) by arith
    ultimately show ?thesis by simp
  qed
  have hi: "c div 262144 = 4 \<Longrightarrow> m \<le> 15"
  proof -
    assume h: "c div 262144 = 4"
    have "c div 4096 < 272" using assms(2) by arith
    then show ?thesis using e h by simp
  qed
  let ?d1 = "\<lparr>code_point = c div 262144, bytes_seen = 0, bytes_needed = 3,
      lower_boundary = (if c div 262144 = 0 then 0x90 else 0x80),
      upper_boundary = (if c div 262144 = 4 then 0x8F else 0xBF)\<rparr>"
  let ?d2 = "\<lparr>code_point = c div 4096, bytes_seen = 1, bytes_needed = 3,
      lower_boundary = 0x80, upper_boundary = 0xBF\<rparr>"
  let ?d3 = "\<lparr>code_point = c div 64, bytes_seen = 2, bytes_needed = 3,
      lower_boundary = 0x80, upper_boundary = 0xBF\<rparr>"
  have "utf8_decode decoder_init (utf8_bytes c @ rest) =
      utf8_decode ?d1 ((0x80 + m) # (0x80 + n) # (0x80 + c mod 64) # rest)"
    unfolding b
    by (simp add: utf8_decode_lead lead_byte_4 [OF assms(1,2)] del: utf8_decode.simps)
  also have "\<dots> = utf8_decode ?d2 ((0x80 + n) # (0x80 + c mod 64) # rest)"
  proof -
    have "(0x80 + m) mod 64 = m" unfolding m_def by (rule cont_mod)
    then have "c div 262144 * 64 + (0x80 + m) mod 64 = c div 4096" using e by simp
    then show ?thesis
      using lo hi m64 by (subst utf8_decode_cont_more) simp_all
  qed
  also have "\<dots> = utf8_decode ?d3 ((0x80 + c mod 64) # rest)"
  proof -
    have "(0x80 + n) mod 64 = n" unfolding n_def by (rule cont_mod)
    then have "c div 4096 * 64 + (0x80 + n) mod 64 = c div 64" using f by simp
    then show ?thesis
      using m64 by (subst utf8_decode_cont_more) simp_all
  qed
  also have "\<dots> = (c div 64 * 64 + (0x80 + c mod 64) mod 64) # utf8_decode decoder_init rest"
    by (subst utf8_decode_cont_last) simp_all
  also have "c div 64 * 64 + (0x80 + c mod 64) mod 64 = c"
    by (simp only: cont_mod div_mult_mod_eq)
  finally show ?thesis .
qed

lemma decode_encode_scalar:
  assumes "scalar_value c"
  shows "utf8_decode decoder_init (utf8_bytes c @ rest) = c # utf8_decode decoder_init rest"
proof -
  have "c < 0x110000" using assms by (auto simp: scalar_value_def)
  then consider "c < 0x80" | "0x80 \<le> c" "c < 0x800" | "0x800 \<le> c" "c < 0x10000"
    | "0x10000 \<le> c" "c < 0x110000" by linarith
  then show ?thesis
    using assms by cases (simp_all add: decode_1 decode_2 decode_3 decode_4)
qed

lemma utf8_decode_encode:
  "list_all scalar_value cs \<Longrightarrow>
   utf8_decode decoder_init (concat (map utf8_bytes cs)) = cs"
  by (induction cs) (simp_all add: decode_encode_scalar del: utf8_decode.simps, simp add: decoder_init_def)

lemma to_scalars_scalar:
  "list_all (\<lambda>c. c < 0x10000) u \<Longrightarrow> list_all scalar_value (to_scalars u)"
proof (induction u rule: to_scalars.induct)
  case 1
  then show ?case by simp
next
  case (2 c)
  then show ?case by (auto simp: scalar_value_def is_lead_def is_trail_def)
next
  case (3 c d cs)
  then show ?case by (auto simp: scalar_value_def is_lead_def is_trail_def)
qed




lemma to_scalars_Nil: "(to_scalars u = []) = (u = [])"
  by (induction u rule: to_scalars.induct) auto


lemma cont_small: "0x80 + (x::nat) mod 64 < 256"
proof -
  have "x mod 64 < 64" by simp
  then show ?thesis by linarith
qed

lemma utf8_bytes_small:
  assumes "c < 0x110000"
  shows "list_all (\<lambda>b. b < 256) (utf8_bytes c)"
proof -
  have "c < 0x800 \<Longrightarrow> 0xC0 + c div 64 < 256" by arith
  moreover have "c < 0x10000 \<Longrightarrow> 0xE0 + c div 4096 < 256" by arith
  moreover have "0xF0 + c div 262144 < 256" using assms by arith
  ultimately show ?thesis
    unfolding utf8_bytes_def by (simp add: cont_small)
qed

lemma scalar_bytes_small:
  "list_all scalar_value cs \<Longrightarrow> list_all (\<lambda>b. b < 256) (concat (map utf8_bytes cs))"
  by (induction cs) (auto simp: utf8_bytes_small scalar_value_def)

lemma unat_of_nat_bytes:
  "list_all (\<lambda>b. b < 256) bs \<Longrightarrow> map unat (map of_nat bs :: byte list) = bs"
  by (induction bs) (simp_all add: unat_of_nat)

lemma unat_units: "list_all (\<lambda>c. c < 0x10000) (map unat (s :: jsstring))"
proof -
  have "unat c < 0x10000" for c :: code_unit
    using unsigned_less [of c, where 'a = nat] by simp
  then show ?thesis by (simp add: list_all_iff)
qed


lemma TextDecoder_TextEncoder:
  "TextDecoder_decode (TextEncoder_encode s) =
     map of_nat (concat (map utf16_units (strip_bom (to_scalars (map unat s)))))"
  unfolding TextDecoder_decode_def TextEncoder_encode_def
  by (simp only: unat_of_nat_bytes scalar_bytes_small to_scalars_scalar unat_units
      utf8_decode_encode)


subsection \<open>Base64: decoding what was encoded\<close>

lemma div_add_small: "r < m \<Longrightarrow> (a * m + r) div m = (a::nat)"
  by simp

lemma mod_add_small: "r < m \<Longrightarrow> (a * m + r) mod m = (r::nat)"
  by simp

lemma quad_poly:
  "((a1 * 64 + (a0 * 16 + b1)) * 64 + (b0 * 4 + c1)) * 64 + c0
     = ((a1 * 4 + a0) * 256 + (b1 * 16 + b0)) * 256 + (c1 * 64 + (c0::nat))"
  by (simp add: algebra_simps)

lemma quad_value:
  "((a div 4 * 64 + (a mod 4 * 16 + b div 16)) * 64 + (b mod 16 * 4 + c div 64)) * 64 + c mod 64
     = (a * 256 + b) * 256 + (c::nat)"
  using quad_poly [of "a div 4" "a mod 4" "b div 16" "b mod 16" "c div 64" "c mod 64"]
  by (simp only: div_mult_mod_eq)

lemma triple_poly:
  "(a1 * 64 + (a0 * 16 + b1)) * 64 + b0 * 4 = ((a1 * 4 + a0) * 256 + (b1 * 16 + b0)) * (4::nat)"
  by (simp add: algebra_simps)

lemma triple_value:
  "(a div 4 * 64 + (a mod 4 * 16 + b div 16)) * 64 + b mod 16 * 4 = (a * 256 + b) * (4::nat)"
  using triple_poly [of "a div 4" "a mod 4" "b div 16" "b mod 16"]
  by (simp only: div_mult_mod_eq)

lemma pair_poly: "a1 * 64 + a0 * 16 = (a1 * 4 + a0) * (16::nat)"
  by (simp add: algebra_simps)

lemma pair_value: "a div 4 * 64 + a mod 4 * 16 = a * (16::nat)"
  using pair_poly [of "a div 4" "a mod 4"]
  by (simp only: div_mult_mod_eq)

lemma base64_bytes_quad:
  assumes "b < 256" "c < 256"
  shows "base64_bytes (base64_sextets (a # b # c # r)) = a # b # c # base64_bytes (base64_sextets r)"
proof -
  have 1: "((a * 256 + b) * 256 + c) div 65536 = a"
  proof -
    have "(a * 256 + b) * 256 + c = a * 65536 + (b * 256 + c)" by (simp add: algebra_simps)
    moreover have "b * 256 + c < 65536" using assms by linarith
    ultimately show ?thesis by (simp only: div_add_small)
  qed
  have 2: "((a * 256 + b) * 256 + c) div 256 mod 256 = b"
    using assms by (simp only: div_add_small mod_add_small)
  have 3: "((a * 256 + b) * 256 + c) mod 256 = c"
    using assms by (simp only: mod_add_small)
  show ?thesis
    by (simp only: base64_sextets.simps base64_bytes.simps append_Cons append_Nil Let_def
        quad_value 1 2 3)
qed

lemma base64_bytes_triple:
  assumes "b < 256"
  shows "base64_bytes (base64_sextets [a, b]) = [a, b]"
proof -
  have 1: "((a * 256 + b) * 4) div 1024 = a"
  proof -
    have "(a * 256 + b) * 4 = a * 1024 + b * 4" by (simp add: algebra_simps)
    moreover have "b * 4 < 1024" using assms by linarith
    ultimately show ?thesis by (simp only: div_add_small)
  qed
  have 2: "((a * 256 + b) * 4) div 4 mod 256 = b"
    using assms by simp
  show ?thesis
    by (simp only: base64_sextets.simps base64_bytes.simps Let_def triple_value 1 2)
qed

lemma base64_bytes_pair: "base64_bytes (base64_sextets [a]) = [a]"
  by (simp only: base64_sextets.simps base64_bytes.simps pair_value) simp

lemma base64_bytes_sextets:
  "list_all (\<lambda>b. b < 256) bs \<Longrightarrow> base64_bytes (base64_sextets bs) = bs"
proof (induction bs rule: base64_sextets.induct)
  case 1
  then show ?case by simp
next
  case (2 a)
  show ?case by (rule base64_bytes_pair)
next
  case (3 a b)
  then show ?case by (simp add: base64_bytes_triple del: base64_bytes.simps base64_sextets.simps)
next
  case (4 a b c r)
  then show ?case by (simp add: base64_bytes_quad del: base64_bytes.simps base64_sextets.simps)
qed


lemma byte_div_4: "a < 256 \<Longrightarrow> a div 4 < (64::nat)"
  by (rule less_mult_imp_div_less) simp

lemma byte_div_16: "a < 256 \<Longrightarrow> a div 16 < (16::nat)"
  by (rule less_mult_imp_div_less) simp

lemma byte_div_64: "a < 256 \<Longrightarrow> a div 64 < (4::nat)"
  by (rule less_mult_imp_div_less) simp

lemma sextets_small:
  "list_all (\<lambda>b. b < 256) bs \<Longrightarrow> list_all (\<lambda>v. v < 64) (base64_sextets bs)"
proof (induction bs rule: base64_sextets.induct)
  case 1
  then show ?case by simp
next
  case (2 a)
  have "a mod 4 < 4" by simp
  then have "a mod 4 * 16 < 64" by linarith
  moreover have "a div 4 < 64" using 2 by (simp add: byte_div_4)
  ultimately show ?case by simp
next
  case (3 a b)
  have "a mod 4 < 4" "b mod 16 < 16" by simp_all
  moreover have "b div 16 < 16" using 3 by (simp add: byte_div_16)
  ultimately have "a mod 4 * 16 + b div 16 < 64" "b mod 16 * 4 < 64" by linarith+
  moreover have "a div 4 < 64" using 3 by (simp add: byte_div_4)
  ultimately show ?case by simp
next
  case (4 a b c r)
  have "a mod 4 < 4" "b mod 16 < 16" by simp_all
  moreover have "b div 16 < 16" "c div 64 < 4" using 4(2) by (simp_all add: byte_div_16 byte_div_64)
  ultimately have "a mod 4 * 16 + b div 16 < 64" "b mod 16 * 4 + c div 64 < 64" by linarith+
  moreover have "a div 4 < 64" using 4(2) by (simp add: byte_div_4)
  ultimately show ?case using 4 by simp
qed

lemma base64_value_char: "v < 64 \<Longrightarrow> base64_value (base64_char v) = Some v"
  unfolding base64_value_def base64_char_def by auto

lemma base64_char_not_equals: "base64_char v \<noteq> 61"
  unfolding base64_char_def by auto

lemma base64_char_not_space: "\<not> is_ascii_whitespace (base64_char v)"
  unfolding base64_char_def is_ascii_whitespace_def by auto

lemma base64_values_chars:
  "list_all (\<lambda>v. v < 64) vs \<Longrightarrow> base64_values (map base64_char vs) = Some vs"
  by (induction vs) (simp_all add: base64_value_char)

lemma mod3_Suc3: "Suc (Suc (Suc m)) mod 3 = m mod 3"
proof -
  have "Suc (Suc (Suc m)) = m + 3" by simp
  then show ?thesis by (simp only: mod_add_self2)
qed

lemma mod4_Suc4: "Suc (Suc (Suc (Suc n))) mod 4 = n mod 4"
proof -
  have "Suc (Suc (Suc (Suc n))) = n + 4" by simp
  then show ?thesis by (simp only: mod_add_self2)
qed

lemma sextets_length:
  "length (base64_sextets bs) mod 4 \<noteq> 1 \<and>
   (length (base64_sextets bs) + (3 - length bs mod 3) mod 3) mod 4 = 0"
proof (induction bs rule: base64_sextets.induct)
  case 1
  then show ?case by simp
next
  case (2 a)
  then show ?case by simp
next
  case (3 a b)
  then show ?case by simp
next
  case (4 a b c r)
  have l: "length (a # b # c # r) mod 3 = length r mod 3"
    by (simp only: list.size mod3_Suc3) simp
  have s: "length (base64_sextets (a # b # c # r)) = Suc (Suc (Suc (Suc (length (base64_sextets r)))))"
    by simp
  have t: "Suc (Suc (Suc (Suc n))) + k = Suc (Suc (Suc (Suc (n + k))))" for n k by simp
  show ?case
    using 4 unfolding l s t mod4_Suc4 by simp
qed

lemma drop_final_equals_none: "61 \<notin> set S \<Longrightarrow> drop_final_equals S = S"
proof (cases "S = []")
  case True
  then show ?thesis by (simp add: drop_final_equals_def)
next
  case False
  assume "61 \<notin> set S"
  then have "last S \<noteq> 61" using last_in_set [OF False] by metis
  then show ?thesis by (simp add: drop_final_equals_def)
qed

lemma drop_final_equals_snoc: "drop_final_equals (xs @ [61]) = xs"
  unfolding drop_final_equals_def by simp

lemma drop_padding:
  assumes "61 \<notin> set S" "k \<le> 2"
  shows "drop_final_equals (drop_final_equals (S @ replicate k 61)) = S"
proof -
  consider "k = 0" | "k = 1" | "k = 2" using assms(2) by linarith
  then show ?thesis
  proof cases
    case 1
    then show ?thesis using assms(1) by (simp add: drop_final_equals_none)
  next
    case 2
    then show ?thesis using assms(1)
      by (simp add: drop_final_equals_snoc drop_final_equals_none)
  next
    case 3
    have "S @ replicate 2 61 = (S @ [61]) @ [61]" by (simp add: numeral_2_eq_2)
    then show ?thesis unfolding 3
      by (simp only: drop_final_equals_snoc)
  qed
qed

lemma forgiving_base64_decode_encode:
  assumes "list_all (\<lambda>b. b < 256) bs"
  shows "forgiving_base64_decode (base64_encode bs) = Some bs"
proof -
  define S where "S = map base64_char (base64_sextets bs)"
  define k where "k = (3 - length bs mod 3) mod 3"
  have enc: "base64_encode bs = S @ replicate k 61"
    by (simp add: base64_encode_def S_def k_def)
  have no_eq: "61 \<notin> set S"
    using base64_char_not_equals by (auto simp: S_def)
  have "\<not> is_ascii_whitespace 61" by (simp add: is_ascii_whitespace_def)
  then have no_ws: "filter (\<lambda>c. \<not> is_ascii_whitespace c) (S @ replicate k 61) = S @ replicate k 61"
    by (auto simp: S_def base64_char_not_space filter_id_conv)
  have k2: "k \<le> 2"
  proof -
    have "k < 3" unfolding k_def by (rule mod_less_divisor) simp
    then show ?thesis by simp
  qed
  have len: "length (S @ replicate k 61) mod 4 = 0" "length S mod 4 \<noteq> 1"
    using sextets_length [of bs] by (simp_all add: S_def k_def)
  have vals: "base64_values S = Some (base64_sextets bs)"
    unfolding S_def using assms by (simp add: base64_values_chars sextets_small)
  show ?thesis
    unfolding forgiving_base64_decode_def enc Let_def no_ws
    using len vals assms
    by (simp add: drop_padding [OF no_eq k2] base64_bytes_sextets
        del: base64_bytes.simps base64_sextets.simps)
qed


subsection \<open>toBase64 and fromBase64\<close>

lemma unat_byte_small: "unat (b :: byte) < 256"
  using unsigned_less [of b, where 'a = nat] by simp

lemma unat_of_nat_unit: "n < 65536 \<Longrightarrow> unat (of_nat n :: code_unit) = n"
  by (simp add: unat_of_nat)

lemma unat_ucast_byte: "unat (ucast (b :: byte) :: code_unit) = unat b"
proof -
  have "unat b < 2 ^ 16" using unat_byte_small [of b] by simp
  then show ?thesis by (simp add: unsigned_ucast_eq take_bit_nat_eq_self)
qed

lemma ucast_ucast_byte: "(ucast (ucast (b :: byte) :: code_unit) :: byte) = b"
proof -
  show ?thesis by (rule ucast_up_ucast_id) (simp add: is_up)
qed

lemma fromCharCode_units:
  "map unat (String_fromCharCode bs) = map unat bs"
  by (simp add: String_fromCharCode_def unat_ucast_byte)

lemma fromCharCode_small: "list_all (\<lambda>c. unat c < 256) (String_fromCharCode bs)"
  by (simp add: String_fromCharCode_def list_all_iff unat_ucast_byte unat_byte_small)

lemma toBase64_eq: "toBase64 buf = Inr (base64_string buf)"
  by (simp add: toBase64_def btoa_def fromCharCode_small fromCharCode_units base64_string_def)

lemma base64_char_small: "base64_char v < 128"
  unfolding base64_char_def by auto

lemma base64_encode_small: "list_all (\<lambda>c. c < 65536) (base64_encode bs)"
proof -
  have "base64_char v < 65536" for v
    using base64_char_small [of v] by linarith
  then show ?thesis by (auto simp: base64_encode_def list_all_iff)
qed

lemma unat_of_nat_units:
  "list_all (\<lambda>c. c < 65536) cs \<Longrightarrow> map unat (map of_nat cs :: jsstring) = cs"
  by (induction cs) (simp_all add: unat_of_nat_unit)

lemma bytes_small: "list_all (\<lambda>b. b < 256) (map unat (bs :: byte list))"
  by (simp add: list_all_iff unat_byte_small)

lemma fromBase64_base64_string: "fromBase64 (base64_string buf) = Inr buf"
proof -
  have 1: "map unat (base64_string buf) = base64_encode (map unat buf)"
    unfolding base64_string_def by (rule unat_of_nat_units) (rule base64_encode_small)
  have 2: "forgiving_base64_decode (base64_encode (map unat buf)) = Some (map unat buf)"
    by (rule forgiving_base64_decode_encode) (rule bytes_small)
  have 3: "map (ucast :: code_unit \<Rightarrow> byte) (map of_nat (map unat buf)) = buf"
  proof -
    have "map (ucast :: code_unit \<Rightarrow> byte) (map of_nat (map unat buf)) =
        map (\<lambda>b. ucast (of_nat (unat b) :: code_unit)) buf"
      by (simp only: map_map comp_def)
    also have "\<dots> = buf"
      by (rule map_idI) (simp add: ucast_ucast_byte)
    finally show ?thesis .
  qed
  show ?thesis
    unfolding fromBase64_def atob_def 1 2 by (simp add: bind_result_def 3 del: map_map)
qed

lemma base64_encode_Nil: "(base64_encode bs = []) = (bs = [])"
  by (cases bs rule: base64_sextets.cases) (auto simp: base64_encode_def)

lemma base64_string_Nil: "(base64_string buf = []) = (buf = [])"
  by (simp add: base64_string_def base64_encode_Nil)

subsection \<open>What survives encoding and decoding\<close>


lemma utf16_units_replacement: "utf16_units 0xFFFD = [0xFFFD]"
  by (simp add: utf16_units_def)










section \<open>Properties of crypto.ts\<close>

lemma payload_text_eq:
  "payload_text salt iv cipher = Inr (JSON_stringify (payload_object salt iv cipher))"
  by (simp add: payload_text_def toBase64_eq bind_result_def payload_object_def)

lemma deriveKey_eq: "deriveKey W password salt = Inr (derived_key W password salt)"
  by (simp add: deriveKey_def derived_key_def)

lemma encryptText_eq:
  "encryptText W plain password r =
     Inr (JSON_stringify (payload_object (fresh_salt r) (fresh_iv r) (ciphertext W plain password r)),
          snd (getRandomValues 12 (snd (getRandomValues 16 r))))"
  by (simp add: encryptText_def deriveKey_eq payload_text_eq bind_result_def Let_def
      fresh_salt_def fresh_iv_def ciphertext_def split_beta)

lemma fresh_salt_length: "length (fresh_salt r) = 16"
  by (simp add: fresh_salt_def getRandomValues_def)

lemma fresh_iv_length: "length (fresh_iv r) = 12"
  by (simp add: fresh_iv_def getRandomValues_def)

lemma decryptText_payload_object:
  assumes "salt \<noteq> []" "iv \<noteq> []" "data \<noteq> []"
  shows "decryptText W (JSON_stringify (payload_object salt iv data)) password =
     (case aes_gcm_decrypt W (derived_key W password salt) iv data of
        None \<Rightarrow> Inl OperationError
      | Some plainBuf \<Rightarrow> Inr (TextDecoder_decode plainBuf))"
  using assms
  by (simp add: decryptText_def JSON_stringify_def JSON_parse_def payload_object_def
      bind_result_def prop_truthy_def prop_string_def get_prop_def base64_string_Nil
      fromBase64_base64_string deriveKey_eq)

lemma encrypt_then_decrypt_eq:
  assumes "aead_correct W"
  shows "encrypt_then_decrypt W plain pw1 pw2 r =
     (case aes_gcm_decrypt W (derived_key W pw2 (fresh_salt r)) (fresh_iv r)
             (ciphertext W plain pw1 r) of
        None \<Rightarrow> Inl OperationError
      | Some plainBuf \<Rightarrow> Inr (TextDecoder_decode plainBuf))"
proof -
  have s: "fresh_salt r \<noteq> []" using fresh_salt_length [of r] by auto
  have i: "fresh_iv r \<noteq> []" using fresh_iv_length [of r] by auto
  have c: "ciphertext W plain pw1 r \<noteq> []"
    using assms by (simp add: ciphertext_def aead_correct_def)
  show ?thesis
    by (simp add: encrypt_then_decrypt_def encryptText_eq bind_result_def
        decryptText_payload_object [OF s i c])
qed

lemma encrypt_then_decrypt_same:
  assumes "aead_correct W"
  shows "encrypt_then_decrypt W plain pw pw r = Inr (TextDecoder_decode (TextEncoder_encode plain))"
  using assms
  by (simp add: encrypt_then_decrypt_eq [OF assms] ciphertext_def aead_correct_def)

subsection \<open>The test provider meets the assumptions\<close>



lemma frame_not_Nil: "frame x \<noteq> []"
  by (simp add: frame_def)

lemma toy_encrypt: "aes_gcm_encrypt toy_crypto k iv m = frame k @ frame iv @ m @ m"
  by (simp add: toy_crypto_def)

lemma toy_pbkdf2: "pbkdf2 toy_crypto p s n = frame p @ s"
  by (simp add: toy_crypto_def)


lemma toy_decrypt_encrypt:
  "aes_gcm_decrypt toy_crypto k iv (frame k @ frame iv @ m @ m) = Some m"
  by (simp add: toy_crypto_def Let_def)

lemma toy_aead_correct: "aead_correct toy_crypto"
  unfolding aead_correct_def
  by (simp add: toy_encrypt toy_decrypt_encrypt frame_not_Nil)





section \<open>Properties of the Home component\<close>

subsection \<open>What decryptText throws\<close>

lemma atob_error: "atob s = Inl e \<Longrightarrow> e = InvalidCharacterError"
  by (auto simp: atob_def split: option.splits)

lemma fromBase64_Inl: "(fromBase64 s = Inl e) = (atob s = Inl e)"
  by (auto simp: fromBase64_def bind_result_def split: sum.splits)

lemma fromBase64_cases:
  "(\<exists>bs. fromBase64 s = Inr bs \<and> atob s \<noteq> Inl InvalidCharacterError) \<or>
   (fromBase64 s = Inl InvalidCharacterError \<and> atob s = Inl InvalidCharacterError)"
  using atob_error [of s]
  by (cases "atob s") (auto simp: fromBase64_def bind_result_def)


lemma decryptText_invalid_payload_iff:
  "(decryptText W encrypted password = Inl InvalidEncryptedPayload) =
     (case JSON_parse encrypted of
        Inl err \<Rightarrow> False
      | Inr parsed \<Rightarrow> \<not> truthy parsed \<or> \<not> prop_truthy parsed ''salt''
          \<or> \<not> prop_truthy parsed ''iv'' \<or> \<not> prop_truthy parsed ''data'')"
proof (cases "JSON_parse encrypted")
  case (Inl err)
  then have "err = SyntaxError"
    by (cases encrypted) (simp_all add: JSON_parse_def)
  with Inl show ?thesis by (simp add: decryptText_def bind_result_def)
next
  case (Inr parsed)
  show ?thesis
    using fromBase64_cases [of "prop_string parsed ''salt''"]
      fromBase64_cases [of "prop_string parsed ''iv''"]
      fromBase64_cases [of "prop_string parsed ''data''"]
    by (auto simp: Inr decryptText_def bind_result_def deriveKey_def split: option.splits)
qed




lemma map_of_filter_other:
  "k \<noteq> k' \<Longrightarrow> map_of (filter (\<lambda>p. fst p \<noteq> k') fs) k = map_of fs k"
  by (induction fs) auto

lemma decryptText_fields:
  assumes "map_of fs ''salt'' = map_of fs' ''salt''" "map_of fs ''iv'' = map_of fs' ''iv''"
    "map_of fs ''data'' = map_of fs' ''data''"
  shows "decryptText W (JSON_stringify (JObj fs)) password =
         decryptText W (JSON_stringify (JObj fs')) password"
  using assms
  by (simp add: decryptText_def JSON_stringify_def JSON_parse_def bind_result_def
      prop_truthy_def prop_string_def get_prop_def)



subsection \<open>Decrypting a payload of encryptText\<close>









subsection \<open>The handlers\<close>

lemma js_not_Nil: "(js s = []) = (s = [])"
  by (simp add: js_def)


lemma encryptAndSaveKey_eq:
  assumes "apiKey s \<noteq> []" "passphrase s \<noteq> []"
  shows "encryptAndSaveKey W s =
     show_alert KeyEncryptedAndSaved
       (s\<lparr>localStorage := (localStorage s)(''resume_wizard_api_key_enc'' \<mapsto>
            JSON_stringify (payload_object (fresh_salt (random s)) (fresh_iv (random s))
              (ciphertext W (apiKey s) (passphrase s) (random s)))),
          encryptedApiKey :=
            Some (JSON_stringify (payload_object (fresh_salt (random s)) (fresh_iv (random s))
              (ciphertext W (apiKey s) (passphrase s) (random s)))),
          isApiUnlocked := True,
          random := snd (getRandomValues 12 (snd (getRandomValues 16 (random s))))\<rparr>)"
  using assms by (simp add: encryptAndSaveKey_def encryptText_eq)







section \<open>Sample values\<close>

text \<open>Encodings and sessions computed once, for the concrete instances below.\<close>

lemma encode_pw: "TextEncoder_encode (js ''pw'') = [0x70, 0x77]"
  by (simp add: TextEncoder_encode_def js_def utf8_bytes_def is_lead_def is_trail_def)

lemma encode_empty: "TextEncoder_encode [] = []"
  by (simp add: TextEncoder_encode_def)



lemma lone_surrogate_replaced:
  "encrypt_then_decrypt toy_crypto [0x41, 0xD800] (js ''pw'') (js ''pw'') counting_rng
     = Inr [0x41, 0xFFFD]"
  by (simp add: encrypt_then_decrypt_same [OF toy_aead_correct] TextDecoder_TextEncoder
      strip_bom_def utf16_units_def is_lead_def is_trail_def)







lemma example_key_ok:
  "well_formed_string example_key" "\<not> starts_with_bom example_key" "example_key \<noteq> []"
  "example_passphrase \<noteq> []"
  by (simp_all add: example_key_def example_passphrase_def well_formed_string_def
      starts_with_bom_def js_def is_lead_def is_trail_def)


lemma opted_out_session_eq:
  "opted_out_session =
     show_alert KeyEncryptedAndSaved
       ((initial_state Map.empty counting_rng)
          \<lparr>persistEnabled := False, apiKey := example_key, passphrase := example_passphrase,
            localStorage := [''resume_wizard_persistence'' \<mapsto> JSON_stringify (JNum 0),
                             ''resume_wizard_api_key_enc'' \<mapsto> example_payload],
            encryptedApiKey := Some example_payload, isApiUnlocked := True,
            random := snd (getRandomValues 12 (snd (getRandomValues 16 counting_rng)))\<rparr>)"
  by (simp add: opted_out_session_def run_def step_def click_def shown_def has_encrypted_def
      togglePersist_def encryptAndSaveKey_eq example_key_ok show_alert_def example_payload_def
      Let_def)
    (simp add: initial_state_def fun_upd_twist)


section \<open>The claims\<close>

subsection \<open>C1: decrypting what was encrypted\<close>




subsection \<open>C2: a wrong passphrase, a changed payload\<close>




subsection \<open>C3: the key after a page load\<close>




subsection \<open>C4: persistence turned off\<close>

text \<open>
  Claim C4, evaluated on the code. The user turns persistence off, types a key and a
  passphrase and presses Encrypt and Save Key. The flag is off and stored as \<open>'0'\<close>, the
  resume entry is gone, and yet the encrypted key is in storage: the handler writes it
  without looking at the flag, unlike \<open>handleFileUpload\<close>, which checks it.
\<close>

theorem C4_key_written_while_persistence_off:
  "\<not> persistEnabled opted_out_session
   \<and> localStorage opted_out_session ''resume_wizard_persistence''
       = Some (JSON_stringify (JNum 0))
   \<and> localStorage opted_out_session ''resume_wizard_last_resume'' = None
   \<and> localStorage opted_out_session ''resume_wizard_api_key_enc'' = Some example_payload"
  by (simp add: opted_out_session_eq show_alert_def)

subsection \<open>C6: the errors of deriveKey\<close>

text \<open>
  Claim C6 (as amended). \<open>deriveKey\<close> has no error path of its own: for every passphrase,
  empty or not, and every salt of any length it returns the key that the provider's
  PBKDF2 derives from the UTF-8 bytes of the passphrase, the salt and 200000 iterations.
  The claim as written fails: there is no check of the salt's length.
\<close>

theorem C6_deriveKey_never_fails:
  "deriveKey W password salt = Inr (pbkdf2 W (TextEncoder_encode password) salt 200000)"
  by (simp add: deriveKey_def)

text \<open>
  C6 at a concrete input: a 16-byte salt.
\<close>

theorem C6_deriveKey_witness:
  "deriveKey toy_crypto (js ''pw'') (map of_nat [0..<16]) =
     Inr (pbkdf2 toy_crypto (TextEncoder_encode (js ''pw'')) (map of_nat [0..<16]) 200000)"
  by (rule C6_deriveKey_never_fails)

text \<open>
  C6 as written fails: a 3-byte salt, and the empty salt with the empty passphrase, both
  derive a key.
\<close>

theorem C6_short_salt_counterexample:
  "deriveKey toy_crypto (js ''pw'') [1, 2, 3] = Inr [1, 1, 0, 0x70, 0x77, 1, 2, 3] \<and>
   deriveKey toy_crypto [] [] = Inr [0]"
  by (simp add: deriveKey_def toy_pbkdf2 frame_def encode_pw encode_empty
      numeral_2_eq_2)

subsection \<open>C7: what decryptText validates\<close>




subsection \<open>C8: the shape of the payload\<close>



subsection \<open>C9: the version tag is never read\<close>

text \<open>
  Claim C9. \<open>decryptText\<close> never reads \<open>v\<close>: a payload with \<open>v\<close> set to any value and
  the same payload with \<open>v\<close> removed decrypt to the same result; and when \<open>salt\<close>,
  \<open>iv\<close> and \<open>data\<close> are truthy, that result is not \<open>Invalid encrypted payload\<close>,
  whatever \<open>v\<close> is.
\<close>

theorem C9_version_ignored:
  "decryptText W (JSON_stringify (JObj ((''v'', x) # fs))) password =
     decryptText W (JSON_stringify (JObj (filter (\<lambda>p. fst p \<noteq> ''v'') fs))) password
   \<and> (prop_truthy (JObj fs) ''salt'' \<and> prop_truthy (JObj fs) ''iv''
        \<and> prop_truthy (JObj fs) ''data'' \<longrightarrow>
      decryptText W (JSON_stringify (JObj ((''v'', x) # fs))) password
        \<noteq> Inl InvalidEncryptedPayload)"
proof (intro conjI impI)
  show "decryptText W (JSON_stringify (JObj ((''v'', x) # fs))) password =
     decryptText W (JSON_stringify (JObj (filter (\<lambda>p. fst p \<noteq> ''v'') fs))) password"
    by (rule decryptText_fields) (simp_all add: map_of_filter_other)
next
  assume "prop_truthy (JObj fs) ''salt'' \<and> prop_truthy (JObj fs) ''iv''
        \<and> prop_truthy (JObj fs) ''data''"
  then have "prop_truthy (JObj ((''v'', x) # fs)) ''salt''"
    "prop_truthy (JObj ((''v'', x) # fs)) ''iv''"
    "prop_truthy (JObj ((''v'', x) # fs)) ''data''"
    by (simp_all add: prop_truthy_def get_prop_def)
  then show "decryptText W (JSON_stringify (JObj ((''v'', x) # fs))) password
        \<noteq> Inl InvalidEncryptedPayload"
    using decryptText_invalid_payload_iff [of W "JSON_stringify (JObj ((''v'', x) # fs))" password]
    by (simp add: JSON_stringify_def JSON_parse_def)
qed

text \<open>
  C9 at a concrete input: \<open>v\<close> equal to 2, against no \<open>v\<close> at all.
\<close>

theorem C9_version_witness:
  "decryptText toy_crypto
     (JSON_stringify (JObj [(''v'', JNum 2), (''v'', JNum 1), (''salt'', JStr (js ''AAAA'')),
        (''iv'', JStr (js ''AAAA'')), (''data'', JStr (js ''AAAA''))])) (js ''pw'')
   = decryptText toy_crypto
       (JSON_stringify (JObj [(''salt'', JStr (js ''AAAA'')), (''iv'', JStr (js ''AAAA'')),
          (''data'', JStr (js ''AAAA''))])) (js ''pw'')
   \<and> decryptText toy_crypto
       (JSON_stringify (JObj [(''v'', JNum 2), (''v'', JNum 1), (''salt'', JStr (js ''AAAA'')),
          (''iv'', JStr (js ''AAAA'')), (''data'', JStr (js ''AAAA''))])) (js ''pw'')
     \<noteq> Inl InvalidEncryptedPayload"
  using C9_version_ignored [of toy_crypto "JNum 2"
      "[(''v'', JNum 1), (''salt'', JStr (js ''AAAA'')), (''iv'', JStr (js ''AAAA'')),
        (''data'', JStr (js ''AAAA''))]" "js ''pw''"]
  by (auto simp add: prop_truthy_def get_prop_def js_def)

subsection \<open>C10: clearing the saved resume\<close>

text \<open>
  Claim C10. \<open>clearLastSavedResume\<close> removes both \<open>resume_wizard_last_resume\<close> and
  \<open>resume_wizard_api_key_enc\<close> from storage and leaves \<open>encryptedApiKey\<close>, \<open>apiKey\<close>
  and \<open>isApiUnlocked\<close> as they were, so that the same key buttons stay on screen.
\<close>

theorem C10_clear_leaves_key_state:
  "localStorage (clearLastSavedResume s) ''resume_wizard_last_resume'' = None
   \<and> localStorage (clearLastSavedResume s) ''resume_wizard_api_key_enc'' = None
   \<and> encryptedApiKey (clearLastSavedResume s) = encryptedApiKey s
   \<and> apiKey (clearLastSavedResume s) = apiKey s
   \<and> isApiUnlocked (clearLastSavedResume s) = isApiUnlocked s
   \<and> shown (clearLastSavedResume s) = shown s"
  by (simp add: clearLastSavedResume_def shown_def has_encrypted_def fun_eq_iff)

text \<open>
  C10 in a session: after an upload and Encrypt and Save Key, pressing Clear on the
  saved-resume card deletes the stored payload while the component still holds it,
  unlocked.
\<close>

theorem C10_clear_witness:
  "localStorage (run toy_crypto True (initial_state Map.empty counting_rng)
       [Upload (Some (js ''cv.tex'', js ''resume'')) 1,
        TypeApiKey (js ''AIza-example-key-123''),
        TypePassphrase (js ''correct horse''), Click EncryptAndSaveKey])
     ''resume_wizard_api_key_enc'' \<noteq> None
   \<and> localStorage (run toy_crypto True (initial_state Map.empty counting_rng)
       [Upload (Some (js ''cv.tex'', js ''resume'')) 1,
        TypeApiKey (js ''AIza-example-key-123''),
        TypePassphrase (js ''correct horse''), Click EncryptAndSaveKey, ClearSavedResume])
     ''resume_wizard_api_key_enc'' = None
   \<and> encryptedApiKey (run toy_crypto True (initial_state Map.empty counting_rng)
       [Upload (Some (js ''cv.tex'', js ''resume'')) 1,
        TypeApiKey (js ''AIza-example-key-123''),
        TypePassphrase (js ''correct horse''), Click EncryptAndSaveKey, ClearSavedResume])
     \<noteq> None
   \<and> isApiUnlocked (run toy_crypto True (initial_state Map.empty counting_rng)
       [Upload (Some (js ''cv.tex'', js ''resume'')) 1,
        TypeApiKey (js ''AIza-example-key-123''),
        TypePassphrase (js ''correct horse''), Click EncryptAndSaveKey, ClearSavedResume])"
proof -
  define s where "s = run toy_crypto True (initial_state Map.empty counting_rng)
       [Upload (Some (js ''cv.tex'', js ''resume'')) 1,
        TypeApiKey (js ''AIza-example-key-123''),
        TypePassphrase (js ''correct horse''), Click EncryptAndSaveKey]"
  have s: "localStorage s ''resume_wizard_api_key_enc'' \<noteq> None" "encryptedApiKey s \<noteq> None"
    "isApiUnlocked s" "truthy (lastSavedResume s)"
    by (simp_all add: s_def run_def step_def handleFileUpload_def initial_state_def click_def
        shown_def has_encrypted_def encryptAndSaveKey_eq js_not_Nil show_alert_def Let_def)
  have r: "run toy_crypto True (initial_state Map.empty counting_rng)
       [Upload (Some (js ''cv.tex'', js ''resume'')) 1,
        TypeApiKey (js ''AIza-example-key-123''),
        TypePassphrase (js ''correct horse''), Click EncryptAndSaveKey, ClearSavedResume]
      = clearLastSavedResume s"
    using s(4) by (simp add: s_def run_def step_def)
  show ?thesis
    unfolding r using s C10_clear_leaves_key_state [of s] by (simp add: s_def)
qed

section \<open>Further properties\<close>

text \<open>
  Turning persistence off (the \<open>onChange\<close> of the checkbox with \<open>checked = false\<close>), in any
  state: the flag is off and stored as \<open>'0'\<close>, and both \<open>resume_wizard_last_resume\<close> and
  \<open>resume_wizard_api_key_enc\<close> are gone from storage at once.
\<close>

theorem togglePersist_off_deletes:
  "localStorage (togglePersist False s) ''resume_wizard_last_resume'' = None
   \<and> localStorage (togglePersist False s) ''resume_wizard_api_key_enc'' = None
   \<and> localStorage (togglePersist False s) ''resume_wizard_persistence''
       = Some (JSON_stringify (JNum 0))
   \<and> \<not> persistEnabled (togglePersist False s)"
  by (simp add: togglePersist_def Let_def)

text \<open>
  While persistence is off, \<open>handleFileUpload\<close> writes nothing to storage, whatever file
  is picked, and leaves the flag alone.
\<close>

theorem handleFileUpload_off_writes_nothing:
  "\<not> persistEnabled s \<Longrightarrow>
   localStorage (handleFileUpload picked now s) = localStorage s
   \<and> persistEnabled (handleFileUpload picked now s) = persistEnabled s"
  by (simp add: handleFileUpload_def Let_def split: option.splits prod.splits)

text \<open>An upload in the session that turned persistence off.\<close>

theorem handleFileUpload_off_witness:
  "\<not> persistEnabled opted_out_session
   \<and> localStorage (handleFileUpload (Some (js ''cv.tex'', js ''resume'')) 1 opted_out_session)
       ''resume_wizard_last_resume'' = None"
  using handleFileUpload_off_writes_nothing
    [of opted_out_session "Some (js ''cv.tex'', js ''resume'')" 1]
  by (simp add: opted_out_session_eq show_alert_def)

text \<open>
  The two handlers that store the key, Encrypt and Save Key and Save Encrypted, write
  \<open>resume_wizard_api_key_enc\<close> whether persistence is on or off: neither reads the flag,
  and neither changes it.
\<close>

theorem key_handlers_write_whatever_the_flag:
  "(apiKey s \<noteq> [] \<and> passphrase s \<noteq> [] \<longrightarrow>
      localStorage (encryptAndSaveKey W s) ''resume_wizard_api_key_enc'' \<noteq> None
      \<and> persistEnabled (encryptAndSaveKey W s) = persistEnabled s)
   \<and> (passphrase s \<noteq> [] \<longrightarrow>
      localStorage (saveEncrypted W s) ''resume_wizard_api_key_enc'' \<noteq> None
      \<and> persistEnabled (saveEncrypted W s) = persistEnabled s)"
  by (simp add: encryptAndSaveKey_eq saveEncrypted_def encryptText_eq show_alert_def)

text \<open>Both handlers in a state with persistence off and empty storage.\<close>

theorem key_handlers_witness:
  "localStorage
     (encryptAndSaveKey toy_crypto
        ((initial_state Map.empty counting_rng)
           \<lparr>persistEnabled := False, apiKey := example_key, passphrase := example_passphrase\<rparr>))
     ''resume_wizard_api_key_enc'' \<noteq> None
   \<and> localStorage
     (saveEncrypted toy_crypto
        ((initial_state Map.empty counting_rng)
           \<lparr>persistEnabled := False, apiKey := example_key, passphrase := example_passphrase\<rparr>))
     ''resume_wizard_api_key_enc'' \<noteq> None"
  using key_handlers_write_whatever_the_flag [of
      "(initial_state Map.empty counting_rng)
         \<lparr>persistEnabled := False, apiKey := example_key, passphrase := example_passphrase\<rparr>"
      toy_crypto]
  by (simp add: example_key_ok)

text \<open>
  The mount effect is one \<open>try\<close> block. When persistence is not disabled and the stored
  resume is a non-empty text that \<open>JSON.parse\<close> rejects, the exception skips the rest of
  the effect: the stored key is not read, and the component stays as it was, with
  persistence on.
\<close>

theorem unparsable_resume_skips_key:
  assumes "localStorage s ''resume_wizard_persistence'' = None \<or>
           localStorage s ''resume_wizard_persistence'' = Some (JSON_stringify (JNum 1))"
    and "localStorage s ''resume_wizard_last_resume'' = Some (Unparsable u)" and "u \<noteq> []"
  shows "loadEffect file_ctor s = s\<lparr>persistEnabled := True\<rparr>"
proof -
  have "(case localStorage s ''resume_wizard_persistence'' of
           None \<Rightarrow> True | Some t \<Rightarrow> t = JSON_stringify (JNum 1))"
    using assms(1) by auto
  then show ?thesis
    using assms(2,3)
    by (simp add: loadEffect_def restore_resume_def text_truthy_def JSON_parse_def
        bind_result_def Let_def)
qed

text \<open>A page load over a stored payload and a stored resume that is the text \<open>{\<close>.\<close>

theorem unparsable_resume_witness:
  "encryptedApiKey
     (page_load True [''resume_wizard_last_resume'' \<mapsto> Unparsable (js ''{''),
                      ''resume_wizard_api_key_enc'' \<mapsto> example_payload] counting_rng)
   = None"
  using unparsable_resume_skips_key [of
      "initial_state [''resume_wizard_last_resume'' \<mapsto> Unparsable (js ''{''),
                      ''resume_wizard_api_key_enc'' \<mapsto> example_payload] counting_rng"
      "js ''{''" True]
  by (simp add: page_load_def initial_state_def js_def)

text \<open>
  \<open>fromBase64\<close> undoes \<open>toBase64\<close>: for every buffer, \<open>toBase64\<close> returns a string, and
  \<open>fromBase64\<close> of that string returns the bytes of the buffer.
\<close>

theorem fromBase64_toBase64:
  "bind_result (toBase64 buf) fromBase64 = Inr buf"
  by (simp add: toBase64_eq bind_result_def fromBase64_base64_string)

end
